theory Spec2Isabelle
  imports Main "HOL-Library.Char_ord" "HOL-Library.List_Lexorder" "HOL-Library.Product_Lexorder"
begin

section \<open>Validation errors\<close>

text \<open>
  A Django \<open>ValidationError\<close> built from a dictionary carries field-name and message pairs,
  in the order the dictionary literal lists them; one built by a field validator carries
  a message and a code. Raising is modelled as the left summand of the result.
\<close>

datatype validation_error =
  ValidationError "(string \<times> string) list"
| ValidationMessage string string

fun error_fields :: "validation_error + unit \<Rightarrow> string list" where
  "error_fields (Inl (ValidationError d)) = map fst d"
| "error_fields (Inl (ValidationMessage m c)) = []"
| "error_fields (Inr u) = []"

section \<open>chains/models.py: GasPrice\<close>

text \<open>
  The columns of \<open>GasPrice\<close>. A nullable column is an option; \<open>chain\<close> is the primary key of
  the owning chain, \<open>fixed_wei_value\<close> an unsigned integer, \<open>gwei_factor\<close> the decimal factor
  counted in units of \<open>10\<^sup>-\<^sup>9\<close>.
\<close>

record GasPrice =
  chain :: nat
  oracle_uri :: "string option"
  oracle_parameter :: "string option"
  gwei_factor :: int
  fixed_wei_value :: "nat option"
  rank :: int

definition exclusive_msg :: string where
  "exclusive_msg = ''An oracle uri or fixed gas price should be provided (but not both)''"

definition parameter_msg :: string where
  "parameter_msg = ''The oracle parameter should be set''"

text \<open>\<open>GasPrice.clean\<close>: two checks in sequence, each raising on its own.\<close>

definition clean :: "GasPrice \<Rightarrow> validation_error + unit" where
  "clean g =
     (if (fixed_wei_value g \<noteq> None) = (oracle_uri g \<noteq> None) then
        Inl (ValidationError
          [(''oracle_uri'', exclusive_msg), (''fixed_wei_value'', exclusive_msg)])
      else if oracle_uri g \<noteq> None \<and> oracle_parameter g = None then
        Inl (ValidationError [(''oracle_parameter'', parameter_msg)])
      else Inr ())"

text \<open>
  The two invariants of a gas price as the specification words them, and the fields each
  one names: exactly one of \<open>oracle_uri\<close> and \<open>fixed_wei_value\<close> is set; an oracle uri comes
  with an oracle parameter.
\<close>

definition exactly_one_source :: "GasPrice \<Rightarrow> bool" where
  "exactly_one_source g = ((oracle_uri g \<noteq> None) \<noteq> (fixed_wei_value g \<noteq> None))"

definition parameter_present :: "GasPrice \<Rightarrow> bool" where
  "parameter_present g = (oracle_uri g = None \<or> oracle_parameter g \<noteq> None)"

definition violated_fields :: "GasPrice \<Rightarrow> string list" where
  "violated_fields g =
     (if exactly_one_source g then [] else [''oracle_uri'', ''fixed_wei_value'']) @
     (if parameter_present g then [] else [''oracle_parameter''])"

text \<open>Sample rows.\<close>

definition gp_oracle_no_parameter :: GasPrice where
  "gp_oracle_no_parameter =
     \<lparr>chain = 1, oracle_uri = Some ''https://gas.example/api'', oracle_parameter = None,
      gwei_factor = 1000000000, fixed_wei_value = None, rank = 100\<rparr>"

definition gp_oracle :: GasPrice where
  "gp_oracle =
     \<lparr>chain = 1, oracle_uri = Some ''https://gas.example/api'', oracle_parameter = Some ''fast'',
      gwei_factor = 1000000000, fixed_wei_value = None, rank = 100\<rparr>"

definition gp_both_no_parameter :: GasPrice where
  "gp_both_no_parameter =
     \<lparr>chain = 4, oracle_uri = Some ''https://gas.example/api'', oracle_parameter = None,
      gwei_factor = 1000000000, fixed_wei_value = Some 24000000000, rank = 100\<rparr>"

definition gp_both_unnamed :: GasPrice where
  "gp_both_unnamed =
     \<lparr>chain = 137, oracle_uri = Some ''https://oracle.example/gas'', oracle_parameter = None,
      gwei_factor = 1, fixed_wei_value = Some 1, rank = 1\<rparr>"

definition gp_neither :: GasPrice where
  "gp_neither =
     \<lparr>chain = 1, oracle_uri = None, oracle_parameter = None,
      gwei_factor = 1000000000, fixed_wei_value = None, rank = 100\<rparr>"

section \<open>chains/models.py: the version validator\<close>

text \<open>
  Python strings are lists of code points; a \<^typ>\<open>char\<close> stands for a code point below 256.
  Regular expressions are kept as data, so that \<open>SEM_VER_REGEX\<close> below can be read side by
  side with the pattern in the source. A character class is a list of inclusive ranges.
  The pattern uses no back-reference and no look-around, so a backtracking search finds a
  match exactly when the text is in the language of the expression.
\<close>

datatype re =
  Never
| Empty
| Cls "(char \<times> char) list"
| Alt re re
| Cat re re
| Rep re

definition in_cls :: "(char \<times> char) list \<Rightarrow> char \<Rightarrow> bool" where
  "in_cls rs c = list_ex (\<lambda>(lo, hi). lo \<le> c \<and> c \<le> hi) rs"

fun nullable :: "re \<Rightarrow> bool" where
  "nullable Never = False"
| "nullable Empty = True"
| "nullable (Cls rs) = False"
| "nullable (Alt r s) = (nullable r \<or> nullable s)"
| "nullable (Cat r s) = (nullable r \<and> nullable s)"
| "nullable (Rep r) = True"

fun deriv :: "char \<Rightarrow> re \<Rightarrow> re" where
  "deriv c Never = Never"
| "deriv c Empty = Never"
| "deriv c (Cls rs) = (if in_cls rs c then Empty else Never)"
| "deriv c (Alt r s) = Alt (deriv c r) (deriv c s)"
| "deriv c (Cat r s) =
     (if nullable r then Alt (Cat (deriv c r) s) (deriv c s) else Cat (deriv c r) s)"
| "deriv c (Rep r) = Cat (deriv c r) (Rep r)"

fun fullmatch :: "re \<Rightarrow> string \<Rightarrow> bool" where
  "fullmatch r [] = nullable r"
| "fullmatch r (c # cs) = fullmatch (deriv c r) cs"

text \<open>
  The texts an expression matches in full, to state what the matcher decides: the union
  for an alternative, the concatenations for a sequence, and any number of repetitions
  for a star.
\<close>

inductive_set repeat :: "string set \<Rightarrow> string set" for A :: "string set" where
  repeat_nil: "[] \<in> repeat A"
| repeat_app: "u \<in> A \<Longrightarrow> v \<in> repeat A \<Longrightarrow> u @ v \<in> repeat A"

fun lang :: "re \<Rightarrow> string set" where
  "lang Never = {}"
| "lang Empty = {[]}"
| "lang (Cls rs) = {[c] | c. in_cls rs c}"
| "lang (Alt r s) = lang r \<union> lang s"
| "lang (Cat r s) = {u @ v | u v. u \<in> lang r \<and> v \<in> lang s}"
| "lang (Rep r) = repeat (lang r)"

text \<open>The pieces of pattern syntax the source uses.\<close>

definition Lit :: "char \<Rightarrow> re" where
  "Lit c = Cls [(c, c)]"

definition Opt :: "re \<Rightarrow> re" where
  "Opt r = Alt r Empty"

definition Rep1 :: "re \<Rightarrow> re" where
  "Rep1 r = Cat r (Rep r)"

fun Cats :: "re list \<Rightarrow> re" where
  "Cats [] = Empty"
| "Cats [r] = r"
| "Cats (r # rs) = Cat r (Cats rs)"

text \<open>
  \<open>\d\<close> in a Python 3 text pattern is any Unicode decimal digit; below code point 256 these
  are \<open>0\<close> to \<open>9\<close>.
\<close>

definition digit :: re where
  "digit = Cls [(CHR ''0'', CHR ''9'')]"

definition numeric_identifier :: re where
  "numeric_identifier = Alt (Lit CHR ''0'') (Cat (Cls [(CHR ''1'', CHR ''9'')]) (Rep digit))"

definition alnum_hyphen :: re where
  "alnum_hyphen =
     Cls [(CHR ''0'', CHR ''9''), (CHR ''a'', CHR ''z''), (CHR ''A'', CHR ''Z''),
          (CHR ''-'', CHR ''-'')]"

definition prerelease_identifier :: re where
  "prerelease_identifier =
     Alt numeric_identifier
       (Cats [Rep digit,
              Cls [(CHR ''a'', CHR ''z''), (CHR ''A'', CHR ''Z''), (CHR ''-'', CHR ''-'')],
              Rep alnum_hyphen])"

text \<open>
  The body of \<open>SEM_VER_REGEX\<close>, between \<open>^\<close> and \<open>$\<close>:
  \<^verbatim>\<open>(0|[1-9]\d*)\.(0|[1-9]\d*)\.(0|[1-9]\d*)\<close>
  \<^verbatim>\<open>(?:-((?:0|[1-9]\d*|\d*[a-zA-Z-][0-9a-zA-Z-]*)(?:\.(?:0|[1-9]\d*|\d*[a-zA-Z-][0-9a-zA-Z-]*))*))?\<close>
  \<^verbatim>\<open>(?:\+([0-9a-zA-Z-]+(?:\.[0-9a-zA-Z-]+)*))?\<close>
\<close>

definition prerelease :: re where
  "prerelease =
     Cats [Lit CHR ''-'', prerelease_identifier,
           Rep (Cat (Lit CHR ''.'') prerelease_identifier)]"

definition build :: re where
  "build =
     Cats [Lit CHR ''+'', Rep1 alnum_hyphen, Rep (Cat (Lit CHR ''.'') (Rep1 alnum_hyphen))]"

definition SEM_VER_REGEX :: re where
  "SEM_VER_REGEX =
     Cats [numeric_identifier, Lit CHR ''.'', numeric_identifier, Lit CHR ''.'',
           numeric_identifier, Opt prerelease, Opt build]"

text \<open>
  \<open>regex.search\<close> for a pattern of the form \<open>^body$\<close> compiled without flags: \<open>^\<close> matches at
  the start of the text only, and \<open>$\<close> matches at the end of the text and also just before
  a line feed that is the last character of the text.
\<close>

definition line_feed :: char where
  "line_feed = CHR 0x0A"

definition search_anchored :: "re \<Rightarrow> string \<Rightarrow> bool" where
  "search_anchored body s =
     (fullmatch body s \<or> (s \<noteq> [] \<and> last s = line_feed \<and> fullmatch body (butlast s)))"

text \<open>
  \<open>sem_ver_validator = RegexValidator(SEM_VER_REGEX, "Invalid version (semver)", "invalid")\<close>:
  calling it raises when the search finds nothing.
\<close>

definition sem_ver_validator :: "string \<Rightarrow> validation_error + unit" where
  "sem_ver_validator v =
     (if search_anchored SEM_VER_REGEX v then Inr ()
      else Inl (ValidationMessage ''Invalid version (semver)'' ''invalid''))"

subsection \<open>The grammar of Semantic Versioning 2.0\<close>

text \<open>
  The grammar the specification refers to, written from its words and independently of
  the pattern: a core of three numeric identifiers separated by dots; optionally a hyphen
  and dot-separated pre-release identifiers; optionally a plus sign and dot-separated
  build identifiers. Every identifier is a non-empty run of letters, digits and hyphens;
  an identifier made of digits only, outside the build metadata, is numeric and has no
  leading zero.
\<close>

definition is_ascii_digit :: "char \<Rightarrow> bool" where
  "is_ascii_digit c = (CHR ''0'' \<le> c \<and> c \<le> CHR ''9'')"

definition is_ident_char :: "char \<Rightarrow> bool" where
  "is_ident_char c =
     (is_ascii_digit c \<or> (CHR ''a'' \<le> c \<and> c \<le> CHR ''z'') \<or>
      (CHR ''A'' \<le> c \<and> c \<le> CHR ''Z'') \<or> c = CHR ''-'')"

fun split_on :: "char \<Rightarrow> string \<Rightarrow> string list" where
  "split_on d [] = [[]]"
| "split_on d (c # cs) =
     (if c = d then [] # split_on d cs
      else (case split_on d cs of w # ws \<Rightarrow> (c # w) # ws | [] \<Rightarrow> [[c]]))"

definition is_numeric_identifier :: "string \<Rightarrow> bool" where
  "is_numeric_identifier w =
     (w \<noteq> [] \<and> list_all is_ascii_digit w \<and> (w = ''0'' \<or> hd w \<noteq> CHR ''0''))"

definition is_build_identifier :: "string \<Rightarrow> bool" where
  "is_build_identifier w = (w \<noteq> [] \<and> list_all is_ident_char w)"

definition is_prerelease_identifier :: "string \<Rightarrow> bool" where
  "is_prerelease_identifier w =
     (if list_all is_ascii_digit w then is_numeric_identifier w else is_build_identifier w)"

definition is_version_core :: "string \<Rightarrow> bool" where
  "is_version_core s =
     (case split_on CHR ''.'' s of
        [major, minor, patch] \<Rightarrow>
          is_numeric_identifier major \<and> is_numeric_identifier minor \<and>
          is_numeric_identifier patch
      | _ \<Rightarrow> False)"

definition valid_semver :: "string \<Rightarrow> bool" where
  "valid_semver s =
     (let before_plus = takeWhile (\<lambda>c. c \<noteq> CHR ''+'') s;
          after_plus = dropWhile (\<lambda>c. c \<noteq> CHR ''+'') s;
          core = takeWhile (\<lambda>c. c \<noteq> CHR ''-'') before_plus;
          after_hyphen = dropWhile (\<lambda>c. c \<noteq> CHR ''-'') before_plus
      in is_version_core core \<and>
         (after_hyphen = [] \<or>
            list_all is_prerelease_identifier (split_on CHR ''.'' (tl after_hyphen))) \<and>
         (after_plus = [] \<or>
            list_all is_build_identifier (split_on CHR ''.'' (tl after_plus))))"

definition version_with_line_feed :: string where
  "version_with_line_feed = ''1.0.0'' @ [line_feed]"

section \<open>chains/models.py: Chain and Wallet\<close>

datatype RpcAuthentication = API_KEY_PATH | NO_AUTHENTICATION

text \<open>The columns of \<open>Chain\<close>; \<open>id_pk\<close> is the source's \<open>id\<close>, the primary key.\<close>

record Chain =
  id_pk :: nat
  relevance :: int
  name :: string
  short_name :: string
  description :: string
  l2 :: bool
  rpc_authentication :: RpcAuthentication
  rpc_uri :: string
  safe_apps_rpc_authentication :: RpcAuthentication
  safe_apps_rpc_uri :: string
  public_rpc_authentication :: RpcAuthentication
  public_rpc_uri :: string
  block_explorer_uri_address_template :: string
  block_explorer_uri_tx_hash_template :: string
  block_explorer_uri_api_template :: string
  currency_name :: string
  currency_symbol :: string
  currency_decimals :: int
  currency_logo_uri :: string
  transaction_service_uri :: string
  vpc_transaction_service_uri :: string
  theme_text_color :: string
  theme_background_color :: string
  ens_registry_address :: "string option"
  recommended_master_copy_version :: string

text \<open>
  A \<open>Wallet\<close> row with its many-to-many field: \<open>chains\<close> holds the primary keys of the chains
  on which the wallet is enabled.
\<close>

record Wallet =
  wallet_pk :: nat
  chains :: "nat list"
  key :: string

text \<open>
  A query set is the list of its rows. \<open>chain.wallet_set.all()\<close> is the reverse side of
  \<open>Wallet.chains\<close>: the wallets whose \<open>chains\<close> hold this chain. \<open>difference\<close> is SQL
  \<open>EXCEPT\<close>: the rows of the first query that the second lacks, without duplicates.
\<close>

definition wallet_set :: "Wallet list \<Rightarrow> 'a Chain_scheme \<Rightarrow> Wallet list" where
  "wallet_set wallets c = filter (\<lambda>w. id_pk c \<in> set (chains w)) wallets"

definition difference :: "'a list \<Rightarrow> 'a list \<Rightarrow> 'a list" where
  "difference q1 q2 = remdups (filter (\<lambda>r. r \<notin> set q2) q1)"

text \<open>\<open>Chain.get_disabled_wallets\<close>; the first argument is the table \<open>Wallet.objects.all()\<close>.\<close>

definition get_disabled_wallets :: "Wallet list \<Rightarrow> 'a Chain_scheme \<Rightarrow> Wallet list" where
  "get_disabled_wallets wallets c =
     (let all_wallets = wallets;
          enabled_wallets = wallet_set wallets c
      in difference all_wallets enabled_wallets)"

section \<open>chains/views.py: ChainsListView\<close>

text \<open>
  The request of the list view after the transport layer has parsed it: the \<open>limit\<close>, a
  positive count, and the \<open>offset\<close> when given, and the comma-separated terms of the
  \<open>ordering\<close> parameter (none when the parameter is absent).
\<close>

record ChainsRequest =
  limit :: "nat option"
  offset :: "nat option"
  ordering_param :: "string list"

text \<open>
  The class attributes the source sets; \<open>ordering_default\<close> is the source's \<open>ordering\<close>.
\<close>

definition max_limit :: nat where
  "max_limit = 100"

definition default_limit :: nat where
  "default_limit = 10"

definition ordering_fields :: "string list" where
  "ordering_fields = [''relevance'', ''name'']"

definition ordering_default :: "string list" where
  "ordering_default = [''relevance'', ''name'']"

text \<open>
  Modelled from the spec: the limit/offset paginator of the web framework, which is not
  part of the sources. The page size is the default when no limit is given, and a larger
  limit than the maximum is clamped to it; the page is that many rows from the offset on.
\<close>

definition get_limit :: "ChainsRequest \<Rightarrow> nat" where
  "get_limit req = (case limit req of None \<Rightarrow> default_limit | Some n \<Rightarrow> min n max_limit)"

text \<open>Modelled from the spec: the offset of the paginator, zero when none is given.\<close>

definition get_offset :: "ChainsRequest \<Rightarrow> nat" where
  "get_offset req = (case offset req of None \<Rightarrow> 0 | Some k \<Rightarrow> k)"

text \<open>Modelled from the spec: the page the paginator returns.\<close>

definition paginate_queryset :: "ChainsRequest \<Rightarrow> 'r list \<Rightarrow> 'r list" where
  "paginate_queryset req rows = take (get_limit req) (drop (get_offset req) rows)"

text \<open>
  Modelled from the spec: the ordering filter of the web framework, which is not part of
  the sources. The caller may order by any of \<open>ordering_fields\<close>, a leading \<open>-\<close> meaning
  descending; terms that name another field are dropped, and when no term remains the
  default ordering applies.
\<close>

fun field_of :: "string \<Rightarrow> string" where
  "field_of [] = []"
| "field_of (c # cs) = (if c = CHR ''-'' then cs else c # cs)"

text \<open>Modelled from the spec: whether an ordering term asks for the descending direction.\<close>

fun descending :: "string \<Rightarrow> bool" where
  "descending [] = False"
| "descending (c # cs) = (c = CHR ''-'')"

text \<open>Modelled from the spec: a term is valid when its field is one of \<open>ordering_fields\<close>.\<close>

definition term_valid :: "string \<Rightarrow> bool" where
  "term_valid t = (field_of t \<in> set ordering_fields)"

text \<open>Modelled from the spec: the ordering filter keeps the valid terms only.\<close>

definition remove_invalid_fields :: "string list \<Rightarrow> string list" where
  "remove_invalid_fields terms = filter term_valid terms"

text \<open>Modelled from the spec: the ordering in force, the valid terms asked for or else the default.\<close>

definition get_ordering :: "ChainsRequest \<Rightarrow> string list" where
  "get_ordering req =
     (let ordering = remove_invalid_fields (ordering_param req)
      in if ordering \<noteq> [] then ordering else ordering_default)"

text \<open>
  Modelled from the spec: \<open>order_by\<close> of the persistence store, which is not part of the
  sources. Rows are compared term by term; names are compared by code point; rows that
  agree on every term keep the order of the table.
\<close>

definition field_less :: "string \<Rightarrow> 'a Chain_scheme \<Rightarrow> 'a Chain_scheme \<Rightarrow> bool" where
  "field_less f a b =
     (if f = ''relevance'' then relevance a < relevance b
      else if f = ''name'' then name a < name b
      else False)"

text \<open>Modelled from the spec: the strict comparison of two rows under one ordering term.\<close>

definition term_less :: "string \<Rightarrow> 'a Chain_scheme \<Rightarrow> 'a Chain_scheme \<Rightarrow> bool" where
  "term_less t a b =
     (if descending t then field_less (field_of t) b a else field_less (field_of t) a b)"

text \<open>Modelled from the spec: the comparison of two rows under a list of ordering terms; the
  first term that tells the rows apart decides.\<close>

fun before_eq :: "string list \<Rightarrow> 'a Chain_scheme \<Rightarrow> 'a Chain_scheme \<Rightarrow> bool" where
  "before_eq [] a b = True"
| "before_eq (t # ts) a b =
     (if term_less t a b then True
      else if term_less t b a then False
      else before_eq ts a b)"

text \<open>Modelled from the spec: insertion into an ordered list, before the first row that does not
  come earlier.\<close>

fun insert_by :: "('r \<Rightarrow> 'r \<Rightarrow> bool) \<Rightarrow> 'r \<Rightarrow> 'r list \<Rightarrow> 'r list" where
  "insert_by le x [] = [x]"
| "insert_by le x (y # ys) = (if le x y then x # y # ys else y # insert_by le x ys)"

text \<open>Modelled from the spec: \<open>order_by\<close> as the stable insertion sort under that comparison.\<close>

definition order_by :: "string list \<Rightarrow> 'a Chain_scheme list \<Rightarrow> 'a Chain_scheme list" where
  "order_by terms rows = foldr (insert_by (before_eq terms)) rows []"

text \<open>
  The list view: \<open>queryset = Chain.objects.all()\<close> goes through the ordering filter and
  then through the paginator.
\<close>

definition ChainsListView :: "ChainsRequest \<Rightarrow> 'a Chain_scheme list \<Rightarrow> 'a Chain_scheme list" where
  "ChainsListView req queryset =
     paginate_queryset req (order_by (get_ordering req) queryset)"

text \<open>The sort key of the default ordering.\<close>

definition relevance_name :: "'a Chain_scheme \<Rightarrow> int \<times> string" where
  "relevance_name c = (relevance c, name c)"

text \<open>Sample rows: a chain given by its key, relevance and name.\<close>

definition chain_row :: "nat \<Rightarrow> int \<Rightarrow> string \<Rightarrow> Chain" where
  "chain_row i r n =
     \<lparr>id_pk = i, relevance = r, name = n, short_name = n, description = [], l2 = False,
      rpc_authentication = NO_AUTHENTICATION, rpc_uri = ''https://rpc.example'',
      safe_apps_rpc_authentication = NO_AUTHENTICATION, safe_apps_rpc_uri = [],
      public_rpc_authentication = NO_AUTHENTICATION,
      public_rpc_uri = ''https://rpc.example'',
      block_explorer_uri_address_template = ''https://scan.example/address/ADDRESS'',
      block_explorer_uri_tx_hash_template = ''https://scan.example/tx/TX'',
      block_explorer_uri_api_template = ''https://scan.example/api'',
      currency_name = ''Ether'', currency_symbol = ''ETH'', currency_decimals = 18,
      currency_logo_uri = ''chains/1/currency_logo.png'',
      transaction_service_uri = ''https://tx.example'',
      vpc_transaction_service_uri = ''http://tx.internal'',
      theme_text_color = ''#ffffff'', theme_background_color = ''#000000'',
      ens_registry_address = None, recommended_master_copy_version = ''1.3.0''\<rparr>"

definition three_chains :: "Chain list" where
  "three_chains = [chain_row 1 50 ''B'', chain_row 2 50 ''A'', chain_row 3 10 ''C'']"

definition request_plain :: ChainsRequest where
  "request_plain = \<lparr>limit = None, offset = None, ordering_param = []\<rparr>"

definition request_limit_500 :: ChainsRequest where
  "request_limit_500 = \<lparr>limit = Some 500, offset = None, ordering_param = []\<rparr>"

definition request_unknown_ordering :: ChainsRequest where
  "request_unknown_ordering =
     \<lparr>limit = None, offset = None, ordering_param = [''-id'', ''short_name'']\<rparr>"

definition three_wallets :: "Wallet list" where
  "three_wallets =
     [\<lparr>wallet_pk = 1, chains = [1, 4], key = ''metamask''\<rparr>,
      \<lparr>wallet_pk = 2, chains = [4], key = ''ledger''\<rparr>,
      \<lparr>wallet_pk = 3, chains = [], key = ''trezor''\<rparr>]"

section \<open>safe_apps/views.py: SafeAppsListView\<close>

text \<open>
  Modelled from the spec: the \<open>SafeApp\<close> model, whose declaration is not part of the
  sources: an entity with a visibility flag, the list of chain ids it supports and
  optional provider metadata.
\<close>

record SafeApp =
  app_id :: nat
  visible :: bool
  chain_ids :: "nat list"
  provider :: "string option"

text \<open>Modelled from the spec: the character of a decimal digit.\<close>

definition digit_char :: "nat \<Rightarrow> char" where
  "digit_char d = char_of (48 + d)"

text \<open>Modelled from the spec: the decimal numeral of a chain id.\<close>

function decimal :: "nat \<Rightarrow> string" where
  "decimal n = (if n < 10 then [digit_char n] else decimal (n div 10) @ [digit_char (n mod 10)])"
  by pat_completeness auto
termination
  by (relation "measure (\<lambda>n. n)") auto

text \<open>
  Modelled from the spec: the containment lookup \<open>chain_ids__contains\<close> of the persistence
  store on that column. The values looked for are query text and are string-compared
  with the chain ids, that is, with their decimal numerals.
\<close>

definition chain_ids_contains :: "nat list \<Rightarrow> string list \<Rightarrow> bool" where
  "chain_ids_contains ids vals = list_all (\<lambda>v. v \<in> set (map decimal ids)) vals"

text \<open>
  \<open>request.query_params\<close> is a multi-valued dictionary, kept as the list of key and value
  pairs in the order of the query string; \<open>get\<close> returns the last value given for the key,
  and \<open>None\<close> when the key is absent.
\<close>

type_synonym query_params = "(string \<times> string) list"

definition query_get :: "query_params \<Rightarrow> string \<Rightarrow> string option" where
  "query_get params k =
     (case filter (\<lambda>kv. fst kv = k) params of
        [] \<Rightarrow> None
      | kv # kvs \<Rightarrow> Some (snd (last (kv # kvs))))"

text \<open>
  \<open>str.isdigit\<close>: true when the text has at least one character and every character is a
  digit, which for Python is a character of Unicode numeric type Decimal or Digit. Below
  code point 256 these are \<open>0\<close> to \<open>9\<close> and the superscripts two, three and one (code
  points 178, 179 and 185).
\<close>

definition isdigit_char :: "char \<Rightarrow> bool" where
  "isdigit_char c =
     (let n = (of_char c :: nat)
      in (48 \<le> n \<and> n \<le> 57) \<or> n = 178 \<or> n = 179 \<or> n = 185)"

definition isdigit :: "string \<Rightarrow> bool" where
  "isdigit s = (s \<noteq> [] \<and> list_all isdigit_char s)"

text \<open>\<open>SafeAppsListView.get_queryset\<close>; the first argument is the table of safe apps.\<close>

definition get_queryset :: "SafeApp list \<Rightarrow> query_params \<Rightarrow> SafeApp list" where
  "get_queryset table params =
     (let queryset = filter visible table;
          network_id = query_get params ''chainId''
      in case network_id of
           None \<Rightarrow> queryset
         | Some n \<Rightarrow>
             if isdigit n then filter (\<lambda>a. chain_ids_contains (chain_ids a) [n]) queryset
             else queryset)"

text \<open>
  The specification's reading of the guard: the parameter consists solely of decimal
  digits (and is not empty).
\<close>

definition decimal_digits_only :: "string \<Rightarrow> bool" where
  "decimal_digits_only s = (s \<noteq> [] \<and> list_all (\<lambda>c. CHR ''0'' \<le> c \<and> c \<le> CHR ''9'') s)"

subsection \<open>The response cache\<close>

text \<open>
  Modelled from the spec: the page cache that \<open>cache_page(60 * 10, cache="safe-apps")\<close> puts
  in front of \<open>get\<close>, which is not part of the sources. The cache region maps the query
  parameters of a request to the stored payload and the time it expires; a request that
  finds a live entry returns its payload, any other request computes the response from
  the table, stores it for the timeout and returns it. Time is counted in seconds; the
  payload is the collection before rendering, since rendering is a function of it.
\<close>

record cache_entry =
  payload :: "SafeApp list"
  expires :: nat

type_synonym cache_region = "query_params \<rightharpoonup> cache_entry"

definition cache_timeout :: nat where
  "cache_timeout = 60 * 10"

text \<open>Modelled from the spec: an entry is live until the time it expires.\<close>

definition live :: "cache_region \<Rightarrow> query_params \<Rightarrow> nat \<Rightarrow> bool" where
  "live c params now = (case c params of None \<Rightarrow> False | Some e \<Rightarrow> now < expires e)"

text \<open>
  Modelled from the spec: the lookup in the cache region and the storing of the response
  around \<open>SafeAppsListView.get\<close>, as its decorator asks for; the response itself is the
  view's query set.
\<close>

definition get :: "nat \<Rightarrow> SafeApp list \<Rightarrow> cache_region \<Rightarrow> query_params
    \<Rightarrow> SafeApp list \<times> cache_region" where
  "get now table c params =
     (if live c params now then (payload (the (c params)), c)
      else (let response = get_queryset table params
            in (response, c(params \<mapsto> \<lparr>payload = response, expires = now + cache_timeout\<rparr>))))"

text \<open>
  A run of the endpoint: each request comes with the time it arrives and the table as it
  is at that time; the responses are collected in order.
\<close>

fun serve :: "cache_region \<Rightarrow> (nat \<times> SafeApp list \<times> query_params) list
    \<Rightarrow> SafeApp list list \<times> cache_region" where
  "serve c [] = ([], c)"
| "serve c ((now, table, params) # rest) =
     (let (response, c1) = get now table c params;
          (responses, c2) = serve c1 rest
      in (response # responses, c2))"

text \<open>Sample data: the three apps of the specification's example, and a hidden one.\<close>

definition app_1_4 :: SafeApp where
  "app_1_4 = \<lparr>app_id = 1, visible = True, chain_ids = [1, 4], provider = None\<rparr>"

definition app_4 :: SafeApp where
  "app_4 = \<lparr>app_id = 2, visible = True, chain_ids = [4], provider = None\<rparr>"

definition app_10 :: SafeApp where
  "app_10 = \<lparr>app_id = 3, visible = True, chain_ids = [10], provider = Some ''provider''\<rparr>"

definition app_hidden :: SafeApp where
  "app_hidden = \<lparr>app_id = 4, visible = False, chain_ids = [4], provider = None\<rparr>"

definition safe_apps :: "SafeApp list" where
  "safe_apps = [app_1_4, app_4, app_10, app_hidden]"

definition superscript_two :: string where
  "superscript_two = [CHR 0xB2]"

definition query_chain_4 :: query_params where
  "query_chain_4 = [(''chainId'', ''4'')]"

definition query_chain_10 :: query_params where
  "query_chain_10 = [(''chainId'', ''10'')]"

section \<open>Gas price validation\<close>

lemma clean_ok_iff:
  "clean g = Inr () \<longleftrightarrow> exactly_one_source g \<and> parameter_present g"
  by (auto simp: clean_def exactly_one_source_def parameter_present_def)

lemma clean_not_exclusive:
  "\<not> exactly_one_source g \<Longrightarrow>
   clean g = Inl (ValidationError
     [(''oracle_uri'', exclusive_msg), (''fixed_wei_value'', exclusive_msg)])"
  by (auto simp: clean_def exactly_one_source_def)

lemma clean_no_parameter:
  "exactly_one_source g \<Longrightarrow> \<not> parameter_present g \<Longrightarrow>
   clean g = Inl (ValidationError [(''oracle_parameter'', parameter_msg)])"
  by (auto simp: clean_def exactly_one_source_def parameter_present_def)

text \<open>
  C1, as stated: validation succeeds if and only if exactly one of \<open>oracle_uri\<close> and
  \<open>fixed_wei_value\<close> is set. A row with an oracle uri, no fixed value and no oracle parameter
  has exactly one of the two set and is rejected all the same.
\<close>

theorem C1_counterexample:
  "exactly_one_source gp_oracle_no_parameter \<and> clean gp_oracle_no_parameter \<noteq> Inr ()"
  by (simp add: exactly_one_source_def clean_def gp_oracle_no_parameter_def)

text \<open>
  C1, amended: validation succeeds if and only if exactly one of \<open>oracle_uri\<close> and
  \<open>fixed_wei_value\<close> is set and an oracle uri, when set, comes with an oracle parameter;
  when both are set or both are null it fails with the same message on \<open>oracle_uri\<close> and on
  \<open>fixed_wei_value\<close>.
\<close>

theorem C1_clean_exclusive:
  "(clean g = Inr () \<longleftrightarrow>
      ((oracle_uri g \<noteq> None) \<noteq> (fixed_wei_value g \<noteq> None)) \<and>
      (oracle_uri g \<noteq> None \<longrightarrow> oracle_parameter g \<noteq> None)) \<and>
   ((oracle_uri g \<noteq> None) = (fixed_wei_value g \<noteq> None) \<longrightarrow>
      clean g = Inl (ValidationError
        [(''oracle_uri'', exclusive_msg), (''fixed_wei_value'', exclusive_msg)]))"
  by (auto simp: clean_def)

theorem C1_clean_exclusive_witness:
  "clean gp_oracle = Inr () \<and>
   oracle_uri gp_oracle \<noteq> None \<and> oracle_parameter gp_oracle \<noteq> None \<and>
   (oracle_uri gp_neither \<noteq> None) = (fixed_wei_value gp_neither \<noteq> None) \<and>
   clean gp_neither = Inl (ValidationError
     [(''oracle_uri'', exclusive_msg), (''fixed_wei_value'', exclusive_msg)])"
  using C1_clean_exclusive [of gp_oracle] C1_clean_exclusive [of gp_neither]
  by (simp add: gp_oracle_def gp_neither_def)

text \<open>
  C2, as stated: a row with an oracle uri and no oracle parameter is rejected with an error
  on \<open>oracle_parameter\<close>. When the row also has a fixed value, the first check raises and the
  error names \<open>oracle_uri\<close> and \<open>fixed_wei_value\<close> only.
\<close>

theorem C2_counterexample:
  "oracle_uri gp_both_no_parameter \<noteq> None \<and> oracle_parameter gp_both_no_parameter = None \<and>
   ''oracle_parameter'' \<notin> set (error_fields (clean gp_both_no_parameter))"
  by (simp add: clean_def gp_both_no_parameter_def)

text \<open>
  C2, amended: a row with an oracle uri and no oracle parameter is always rejected, never
  accepted or changed; the error is on \<open>oracle_parameter\<close> when the row has no fixed value,
  and on \<open>oracle_uri\<close> and \<open>fixed_wei_value\<close> when it has one.
\<close>

theorem C2_missing_parameter_rejected:
  assumes "oracle_uri g \<noteq> None" and "oracle_parameter g = None"
  shows "clean g \<noteq> Inr () \<and>
         error_fields (clean g) =
           (if fixed_wei_value g = None then [''oracle_parameter'']
            else [''oracle_uri'', ''fixed_wei_value''])"
  using assms by (auto simp: clean_def)

theorem C2_missing_parameter_rejected_witness:
  "oracle_uri gp_oracle_no_parameter \<noteq> None \<and> oracle_parameter gp_oracle_no_parameter = None \<and>
   clean gp_oracle_no_parameter \<noteq> Inr () \<and>
   error_fields (clean gp_oracle_no_parameter) = [''oracle_parameter'']"
proof -
  have u: "oracle_uri gp_oracle_no_parameter \<noteq> None"
    by (simp add: gp_oracle_no_parameter_def)
  have p: "oracle_parameter gp_oracle_no_parameter = None"
    by (simp add: gp_oracle_no_parameter_def)
  have f: "fixed_wei_value gp_oracle_no_parameter = None"
    by (simp add: gp_oracle_no_parameter_def)
  show ?thesis
    using C2_missing_parameter_rejected [OF u p] u p f by simp
qed

text \<open>
  C3, as stated: one validation run reports every violated field. A row with both sources
  set and no oracle parameter violates both invariants, and the run reports the two fields
  of the first check without \<open>oracle_parameter\<close>.
\<close>

theorem C3_counterexample:
  "violated_fields gp_both_unnamed = [''oracle_uri'', ''fixed_wei_value'', ''oracle_parameter''] \<and>
   error_fields (clean gp_both_unnamed) = [''oracle_uri'', ''fixed_wei_value'']"
  by (simp add: violated_fields_def exactly_one_source_def parameter_present_def clean_def
      gp_both_unnamed_def)

text \<open>
  C3, amended: one validation run reports the fields of the first failed check, in one
  error: \<open>oracle_uri\<close> and \<open>fixed_wei_value\<close> together when the exclusivity check fails,
  \<open>oracle_parameter\<close> alone when only the parameter check fails. Every reported field is a
  violated one, a row with a violation is never accepted, and the report falls short of
  the violated fields exactly when both sources are set and the oracle parameter is null.
\<close>

theorem C3_first_failed_check_reported:
  "error_fields (clean g) =
     (if \<not> exactly_one_source g then [''oracle_uri'', ''fixed_wei_value'']
      else if \<not> parameter_present g then [''oracle_parameter''] else []) \<and>
   set (error_fields (clean g)) \<subseteq> set (violated_fields g) \<and>
   (clean g = Inr () \<longleftrightarrow> violated_fields g = []) \<and>
   (error_fields (clean g) \<noteq> violated_fields g \<longleftrightarrow>
      oracle_uri g \<noteq> None \<and> fixed_wei_value g \<noteq> None \<and> oracle_parameter g = None)"
  by (auto simp: clean_def violated_fields_def exactly_one_source_def parameter_present_def)

theorem C3_first_failed_check_reported_witness:
  "error_fields (clean gp_both_no_parameter) = [''oracle_uri'', ''fixed_wei_value''] \<and>
   set (error_fields (clean gp_both_no_parameter)) \<subseteq> set (violated_fields gp_both_no_parameter) \<and>
   clean gp_both_no_parameter \<noteq> Inr () \<and>
   error_fields (clean gp_both_no_parameter) \<noteq> violated_fields gp_both_no_parameter"
  using C3_first_failed_check_reported [of gp_both_no_parameter]
  by (simp add: gp_both_no_parameter_def exactly_one_source_def parameter_present_def
      violated_fields_def)

section \<open>The version validator\<close>

text \<open>The matcher decides the language of the expression.\<close>

lemma nullable_lang: "nullable r \<longleftrightarrow> [] \<in> lang r"
  by (induction r) (auto intro: repeat_nil)

lemma repeat_cons_split:
  assumes "x \<in> repeat A" and "x = c # w"
  shows "\<exists>u v. w = u @ v \<and> c # u \<in> A \<and> v \<in> repeat A"
  using assms
proof (induction arbitrary: w)
  case repeat_nil
  then show ?case by simp
next
  case (repeat_app u v)
  show ?case
  proof (cases u)
    case Nil
    with repeat_app show ?thesis by simp
  next
    case (Cons a u')
    with repeat_app.prems have "a = c" and "w = u' @ v" by simp_all
    with Cons repeat_app.hyps show ?thesis by blast
  qed
qed

lemma repeat_cons:
  "c # w \<in> repeat A \<longleftrightarrow> (\<exists>u v. w = u @ v \<and> c # u \<in> A \<and> v \<in> repeat A)"
proof
  assume "c # w \<in> repeat A"
  then show "\<exists>u v. w = u @ v \<and> c # u \<in> A \<and> v \<in> repeat A"
    by (rule repeat_cons_split) simp
next
  assume "\<exists>u v. w = u @ v \<and> c # u \<in> A \<and> v \<in> repeat A"
  then obtain u v where "w = u @ v" "c # u \<in> A" "v \<in> repeat A" by blast
  then show "c # w \<in> repeat A"
    using repeat_app [of "c # u" A v] by simp
qed

lemma lang_deriv: "w \<in> lang (deriv c r) \<longleftrightarrow> c # w \<in> lang r"
proof (induction r arbitrary: w)
  case (Cat r s)
  show ?case
  proof (cases "nullable r")
    case True
    then have "[] \<in> lang r" by (simp add: nullable_lang)
    with Cat True show ?thesis
      by (auto simp: Cons_eq_append_conv)
  next
    case False
    then have "[] \<notin> lang r" by (simp add: nullable_lang)
    with Cat False show ?thesis
      by (auto simp: Cons_eq_append_conv)
  qed
next
  case (Rep r)
  then show ?case
    by (auto simp: repeat_cons)
qed auto

lemma fullmatch_lang: "fullmatch r w \<longleftrightarrow> w \<in> lang r"
  by (induction w arbitrary: r) (simp_all add: nullable_lang lang_deriv)

text \<open>The character classes and sub-patterns, against the predicates of the grammar.\<close>

lemma digit_cls: "in_cls [(CHR ''0'', CHR ''9'')] c \<longleftrightarrow> is_ascii_digit c"
  by (simp add: in_cls_def is_ascii_digit_def)

lemma ident_cls:
  "in_cls [(CHR ''0'', CHR ''9''), (CHR ''a'', CHR ''z''), (CHR ''A'', CHR ''Z''),
           (CHR ''-'', CHR ''-'')] c \<longleftrightarrow> is_ident_char c"
  by (auto simp: in_cls_def is_ident_char_def is_ascii_digit_def)

lemma nonzero_cls:
  "in_cls [(CHR ''1'', CHR ''9'')] c \<longleftrightarrow> is_ascii_digit c \<and> c \<noteq> CHR ''0''"
proof -
  have "c \<noteq> CHR ''0'' \<longleftrightarrow> (of_char c :: nat) \<noteq> 48"
    using of_char_eq_iff [of c "CHR ''0''", where ?'a = nat] by simp
  then show ?thesis
    by (auto simp: in_cls_def is_ascii_digit_def less_eq_char_def)
qed

lemma letter_cls:
  "in_cls [(CHR ''a'', CHR ''z''), (CHR ''A'', CHR ''Z''), (CHR ''-'', CHR ''-'')] c \<longleftrightarrow>
   is_ident_char c \<and> \<not> is_ascii_digit c"
proof -
  have "c = CHR ''-'' \<longleftrightarrow> (of_char c :: nat) = 45"
    using of_char_eq_iff [of c "CHR ''-''", where ?'a = nat] by simp
  then show ?thesis
    by (auto simp: in_cls_def is_ident_char_def is_ascii_digit_def less_eq_char_def)
qed

lemma lit_cls: "in_cls [(d, d)] c \<longleftrightarrow> c = d"
  by (auto simp: in_cls_def)

lemma lang_Lit: "lang (Lit d) = {[d]}"
  by (auto simp: Lit_def lit_cls)

lemma repeat_chars: "repeat {[c] | c. P c} = {w. \<forall>c \<in> set w. P c}"
proof (intro set_eqI iffI)
  fix w
  assume "w \<in> repeat {[c] | c. P c}"
  then show "w \<in> {w. \<forall>c \<in> set w. P c}"
    by induction auto
next
  fix w
  assume "w \<in> {w. \<forall>c \<in> set w. P c}"
  then show "w \<in> repeat {[c] | c. P c}"
  proof (induction w)
    case Nil
    show ?case by (rule repeat_nil)
  next
    case (Cons c w)
    then have "[c] \<in> {[c] | c. P c}" and "w \<in> repeat {[c] | c. P c}" by auto
    then have "[c] @ w \<in> repeat {[c] | c. P c}" by (rule repeat_app)
    then show ?case by simp
  qed
qed


lemma lang_digits: "repeat (lang digit) = {w. \<forall>c \<in> set w. is_ascii_digit c}"
  by (simp add: digit_def digit_cls repeat_chars)

lemma lang_idents: "repeat (lang alnum_hyphen) = {w. \<forall>c \<in> set w. is_ident_char c}"
  by (simp add: alnum_hyphen_def ident_cls repeat_chars)

lemma digit_is_ident: "is_ascii_digit c \<Longrightarrow> is_ident_char c"
  by (simp add: is_ident_char_def)

lemma CatI: "u \<in> lang r \<Longrightarrow> v \<in> lang s \<Longrightarrow> u @ v \<in> lang (Cat r s)"
  by (simp only: lang.simps) blast

lemma CatE:
  assumes "w \<in> lang (Cat r s)"
  obtains u v where "w = u @ v" "u \<in> lang r" "v \<in> lang s"
  using assms by (simp only: lang.simps) blast

lemma in_lang_Cls: "w \<in> lang (Cls rs) \<longleftrightarrow> (\<exists>c. w = [c] \<and> in_cls rs c)"
  by auto

lemma in_lang_digits: "w \<in> lang (Rep digit) \<longleftrightarrow> (\<forall>c \<in> set w. is_ascii_digit c)"
  by (simp add: lang_digits)

lemma in_lang_idents: "w \<in> lang (Rep alnum_hyphen) \<longleftrightarrow> (\<forall>c \<in> set w. is_ident_char c)"
  by (simp add: lang_idents)

lemma lang_numeric_identifier: "lang numeric_identifier = {w. is_numeric_identifier w}"
proof (intro set_eqI iffI)
  fix w
  assume "w \<in> lang numeric_identifier"
  then have "w \<in> lang (Lit CHR ''0'') \<or>
      w \<in> lang (Cat (Cls [(CHR ''1'', CHR ''9'')]) (Rep digit))"
    by (simp only: numeric_identifier_def lang.simps Un_iff)
  then show "w \<in> {w. is_numeric_identifier w}"
  proof
    assume "w \<in> lang (Lit CHR ''0'')"
    then have "w = ''0''" by (simp add: lang_Lit)
    then show ?thesis
      by (simp add: is_numeric_identifier_def is_ascii_digit_def list_all_iff)
  next
    assume "w \<in> lang (Cat (Cls [(CHR ''1'', CHR ''9'')]) (Rep digit))"
    then obtain u v where w: "w = u @ v" and u: "u \<in> lang (Cls [(CHR ''1'', CHR ''9'')])"
      and v: "v \<in> lang (Rep digit)"
      by (rule CatE)
    from u obtain c where c: "u = [c]" "is_ascii_digit c" "c \<noteq> CHR ''0''"
      unfolding in_lang_Cls nonzero_cls by blast
    from v have "\<forall>d \<in> set v. is_ascii_digit d"
      by (simp only: in_lang_digits)
    with w c show ?thesis
      by (simp add: is_numeric_identifier_def list_all_iff)
  qed
next
  fix w
  assume "w \<in> {w. is_numeric_identifier w}"
  then have w: "w \<noteq> []" "\<forall>c \<in> set w. is_ascii_digit c" "w = ''0'' \<or> hd w \<noteq> CHR ''0''"
    by (simp_all add: is_numeric_identifier_def list_all_iff)
  show "w \<in> lang numeric_identifier"
  proof (cases "w = ''0''")
    case True
    then show ?thesis
      by (simp add: numeric_identifier_def lang_Lit)
  next
    case False
    with w obtain c ds where cds: "w = [c] @ ds" "c \<noteq> CHR ''0''"
      by (cases w) auto
    with w(2) have "[c] \<in> lang (Cls [(CHR ''1'', CHR ''9'')])" and "ds \<in> lang (Rep digit)"
      by (simp_all add: in_lang_Cls in_lang_digits nonzero_cls del: lang.simps)
    then have "[c] @ ds \<in> lang (Cat (Cls [(CHR ''1'', CHR ''9'')]) (Rep digit))"
      by (rule CatI)
    with cds show ?thesis
      by (simp only: numeric_identifier_def lang.simps Un_iff simp_thms)
  qed
qed

lemma lang_build_identifier: "lang (Rep1 alnum_hyphen) = {w. is_build_identifier w}"
proof (intro set_eqI iffI)
  fix w
  assume "w \<in> lang (Rep1 alnum_hyphen)"
  then have "w \<in> lang (Cat alnum_hyphen (Rep alnum_hyphen))"
    by (simp only: Rep1_def)
  then obtain u v where w: "w = u @ v" and u: "u \<in> lang alnum_hyphen"
    and v: "v \<in> lang (Rep alnum_hyphen)"
    by (rule CatE)
  from u obtain c where c: "u = [c]" "is_ident_char c"
    unfolding alnum_hyphen_def in_lang_Cls ident_cls by blast
  from v have "\<forall>d \<in> set v. is_ident_char d"
    by (simp only: in_lang_idents)
  with w c show "w \<in> {w. is_build_identifier w}"
    by (simp add: is_build_identifier_def list_all_iff)
next
  fix w
  assume "w \<in> {w. is_build_identifier w}"
  then obtain c v where cv: "w = [c] @ v" "is_ident_char c" "\<forall>d \<in> set v. is_ident_char d"
    by (cases w) (auto simp: is_build_identifier_def list_all_iff)
  from cv(2) have "[c] \<in> lang alnum_hyphen"
    by (simp add: alnum_hyphen_def ident_cls)
  moreover from cv(3) have "v \<in> lang (Rep alnum_hyphen)"
    by (simp only: in_lang_idents)
  ultimately have "[c] @ v \<in> lang (Cat alnum_hyphen (Rep alnum_hyphen))"
    by (rule CatI)
  with cv show "w \<in> lang (Rep1 alnum_hyphen)"
    by (simp only: Rep1_def)
qed

lemma lang_alphanumeric:
  "lang (Cats [Rep digit,
          Cls [(CHR ''a'', CHR ''z''), (CHR ''A'', CHR ''Z''), (CHR ''-'', CHR ''-'')],
          Rep alnum_hyphen]) =
   {w. (\<forall>c \<in> set w. is_ident_char c) \<and> \<not> (\<forall>c \<in> set w. is_ascii_digit c)}"
    (is "lang ?R = ?S")
proof (intro set_eqI iffI)
  let ?L = "Cls [(CHR ''a'', CHR ''z''), (CHR ''A'', CHR ''Z''), (CHR ''-'', CHR ''-'')]"
  have R: "?R = Cat (Rep digit) (Cat ?L (Rep alnum_hyphen))"
    by simp
  {
    fix w
    assume "w \<in> lang ?R"
    then have "w \<in> lang (Cat (Rep digit) (Cat ?L (Rep alnum_hyphen)))"
      by (simp only: R)
    then obtain ds x where 1: "w = ds @ x" "ds \<in> lang (Rep digit)"
        "x \<in> lang (Cat ?L (Rep alnum_hyphen))"
      by (rule CatE)
    from 1(3) obtain y rest where 2: "x = y @ rest" "y \<in> lang ?L"
        "rest \<in> lang (Rep alnum_hyphen)"
      by (rule CatE)
    from 2(2) obtain l where 3: "y = [l]" "is_ident_char l" "\<not> is_ascii_digit l"
      unfolding in_lang_Cls letter_cls by blast
    from 1 2 3 have "w = ds @ [l] @ rest" "\<forall>c \<in> set ds. is_ascii_digit c"
        "\<forall>c \<in> set rest. is_ident_char c"
      by (simp_all only: in_lang_digits in_lang_idents)
    with 3 show "w \<in> ?S"
      by (auto intro: digit_is_ident)
  }
  {
    fix w
    assume "w \<in> ?S"
    then have i: "\<forall>c \<in> set w. is_ident_char c" and n: "\<not> (\<forall>c \<in> set w. is_ascii_digit c)"
      by simp_all
    let ?ds = "takeWhile is_ascii_digit w" and ?r = "dropWhile is_ascii_digit w"
    from n have "?r \<noteq> []" by simp
    then obtain l rest where r: "?r = l # rest"
      by (cases ?r) auto
    then have l: "\<not> is_ascii_digit l"
      using hd_dropWhile [of is_ascii_digit w] by simp
    have w: "w = ?ds @ ([l] @ rest)"
      using takeWhile_dropWhile_id [of is_ascii_digit w] r by simp
    have "l \<in> set w" and "set rest \<subseteq> set w"
      using set_dropWhileD [of _ is_ascii_digit w] r by auto
    with i have "is_ident_char l" and "\<forall>c \<in> set rest. is_ident_char c"
      by auto
    then have "[l] \<in> lang ?L" and "rest \<in> lang (Rep alnum_hyphen)"
      using l unfolding in_lang_Cls in_lang_idents letter_cls by blast+
    then have "[l] @ rest \<in> lang (Cat ?L (Rep alnum_hyphen))"
      by (rule CatI)
    moreover have "?ds \<in> lang (Rep digit)"
      by (auto simp only: in_lang_digits dest: set_takeWhileD)
    ultimately have "?ds @ ([l] @ rest) \<in> lang (Cat (Rep digit) (Cat ?L (Rep alnum_hyphen)))"
      by (rule CatI [rotated])
    with w show "w \<in> lang ?R"
      by (simp only: R)
  }
qed

lemma numeric_is_digits:
  "is_numeric_identifier w \<Longrightarrow> w \<noteq> [] \<and> (\<forall>c \<in> set w. is_ascii_digit c)"
  by (simp add: is_numeric_identifier_def list_all_iff)

lemma lang_prerelease_identifier:
  "lang prerelease_identifier = {w. is_prerelease_identifier w}"
proof -
  have "lang prerelease_identifier =
      {w. is_numeric_identifier w} \<union>
      {w. (\<forall>c \<in> set w. is_ident_char c) \<and> \<not> (\<forall>c \<in> set w. is_ascii_digit c)}"
    unfolding prerelease_identifier_def lang.simps lang_numeric_identifier lang_alphanumeric ..
  also have "\<dots> = {w. is_prerelease_identifier w}"
    using numeric_is_digits
    by (auto simp: is_prerelease_identifier_def is_build_identifier_def list_all_iff)
  finally show ?thesis .
qed


text \<open>Dot-separated sequences, against \<open>split_on\<close>.\<close>

lemma split_on_no_sep: "d \<notin> set u \<Longrightarrow> split_on d u = [u]"
  by (induction u) auto

lemma split_on_sep: "d \<notin> set u \<Longrightarrow> split_on d (u @ d # v) = u # split_on d v"
  by (induction u) auto

lemma set_split_on:
  "c \<in> set w \<Longrightarrow> c = d \<or> (\<exists>x \<in> set (split_on d w). c \<in> set x)"
  by (induction w) (auto split: list.splits)

lemma dotted_split:
  assumes "\<And>x. P x \<Longrightarrow> d \<notin> set x"
  shows "list_all P (split_on d w) \<Longrightarrow>
         \<exists>x v. w = x @ v \<and> P x \<and> v \<in> repeat {d # y | y. P y}"
proof (induction w rule: length_induct)
  case (1 w)
  show ?case
  proof (cases "d \<in> set w")
    case False
    with 1(2) have "P w" by (simp add: split_on_no_sep)
    then have "w = w @ [] \<and> P w \<and> [] \<in> repeat {d # y | y. P y}"
      by (simp add: repeat_nil)
    then show ?thesis by blast
  next
    case True
    then obtain u r where w: "w = u @ d # r" and u: "d \<notin> set u"
      by (auto dest: split_list_first)
    with 1(2) have "P u" and "list_all P (split_on d r)"
      by (simp_all add: split_on_sep)
    moreover have "length r < length w"
      using w by simp
    ultimately obtain y v where r: "r = y @ v" "P y" "v \<in> repeat {d # y | y. P y}"
      using 1(1) by blast
    then have "(d # y) @ v \<in> repeat {d # y | y. P y}"
      by (intro repeat_app) auto
    with w r \<open>P u\<close> have "w = u @ ((d # y) @ v) \<and> P u \<and> (d # y) @ v \<in> repeat {d # y | y. P y}"
      by simp
    then show ?thesis by blast
  qed
qed

lemma dotted_join:
  assumes "\<And>x. P x \<Longrightarrow> d \<notin> set x"
  shows "v \<in> repeat {d # y | y. P y} \<Longrightarrow> P x \<Longrightarrow> list_all P (split_on d (x @ v))"
proof (induction arbitrary: x rule: repeat.induct)
  case repeat_nil
  then show ?case
    using assms by (simp add: split_on_no_sep)
next
  case (repeat_app u v)
  then obtain y where y: "u = d # y" "P y" by auto
  with repeat_app have "list_all P (split_on d (y @ v))" by blast
  with y repeat_app.prems show ?case
    using assms by (simp add: split_on_sep)
qed

lemma lang_Cat_Lit: "lang (Cat (Lit d) r) = {d # v | v. v \<in> lang r}"
  by (auto simp: lang_Lit)

lemma lang_dotted:
  assumes "lang X = {w. P w}" and "\<And>x. P x \<Longrightarrow> d \<notin> set x"
  shows "lang (Cat X (Rep (Cat (Lit d) X))) = {w. list_all P (split_on d w)}"
proof -
  have "lang (Cat X (Rep (Cat (Lit d) X))) =
      {x @ v | x v. P x \<and> v \<in> repeat {d # y | y. P y}}"
    unfolding lang.simps(5) [of X "Rep (Cat (Lit d) X)"] lang.simps(6) lang_Cat_Lit assms(1)
    by simp
  also have "\<dots> = {w. list_all P (split_on d w)}"
  proof (intro set_eqI iffI)
    fix w
    assume "w \<in> {x @ v | x v. P x \<and> v \<in> repeat {d # y | y. P y}}"
    then obtain x v where "w = x @ v" "P x" "v \<in> repeat {d # y | y. P y}"
      by blast
    then show "w \<in> {w. list_all P (split_on d w)}"
      using dotted_join [where P = P and d = d and v = v and x = x] assms(2) by blast
  next
    fix w
    assume "w \<in> {w. list_all P (split_on d w)}"
    then have "list_all P (split_on d w)"
      by simp
    then have "\<exists>x v. w = x @ v \<and> P x \<and> v \<in> repeat {d # y | y. P y}"
      using dotted_split [where P = P and d = d and w = w] assms(2) by blast
    then show "w \<in> {x @ v | x v. P x \<and> v \<in> repeat {d # y | y. P y}}"
      by blast
  qed
  finally show ?thesis .
qed

lemma numeric_no_sep:
  "is_numeric_identifier x \<Longrightarrow>
   CHR ''.'' \<notin> set x \<and> CHR ''-'' \<notin> set x \<and> CHR ''+'' \<notin> set x"
  by (auto simp: is_numeric_identifier_def list_all_iff is_ascii_digit_def)

lemma build_no_sep:
  "is_build_identifier x \<Longrightarrow> CHR ''.'' \<notin> set x \<and> CHR ''+'' \<notin> set x"
  by (auto simp: is_build_identifier_def list_all_iff is_ident_char_def is_ascii_digit_def)

lemma prerelease_no_sep:
  "is_prerelease_identifier x \<Longrightarrow> CHR ''.'' \<notin> set x \<and> CHR ''+'' \<notin> set x"
  using numeric_no_sep [of x] build_no_sep [of x]
  by (auto simp: is_prerelease_identifier_def split: if_splits)

lemma lang_Opt: "lang (Opt r) = lang r \<union> {[]}"
  by (simp add: Opt_def)

lemma lang_prerelease:
  "lang prerelease =
     {CHR ''-'' # x | x. list_all is_prerelease_identifier (split_on CHR ''.'' x)}"
proof -
  have "lang (Cat prerelease_identifier (Rep (Cat (Lit CHR ''.'') prerelease_identifier))) =
      {w. list_all is_prerelease_identifier (split_on CHR ''.'' w)}"
    using lang_prerelease_identifier prerelease_no_sep by (intro lang_dotted) auto
  then show ?thesis
    by (simp only: prerelease_def Cats.simps lang_Cat_Lit mem_Collect_eq)
qed

lemma lang_build:
  "lang build = {CHR ''+'' # x | x. list_all is_build_identifier (split_on CHR ''.'' x)}"
proof -
  have "lang (Cat (Rep1 alnum_hyphen) (Rep (Cat (Lit CHR ''.'') (Rep1 alnum_hyphen)))) =
      {w. list_all is_build_identifier (split_on CHR ''.'' w)}"
    using lang_build_identifier build_no_sep by (intro lang_dotted) auto
  then show ?thesis
    by (simp only: build_def Cats.simps lang_Cat_Lit mem_Collect_eq)
qed


lemma split_on_not_Nil: "split_on d w \<noteq> []"
  by (induction w) (auto split: list.splits)

lemma split_on_eq_Cons:
  assumes "split_on d w = x # xs"
  shows "if xs = [] then w = x else (\<exists>r. w = x @ d # r \<and> split_on d r = xs)"
proof (cases "d \<in> set w")
  case False
  with assms show ?thesis by (simp add: split_on_no_sep)
next
  case True
  then obtain u r where "w = u @ d # r" "d \<notin> set u"
    by (auto dest: split_list_first)
  with assms show ?thesis
    using split_on_not_Nil [of d r] by (auto simp: split_on_sep)
qed

lemma version_core_iff:
  "is_version_core s \<longleftrightarrow>
     (\<exists>a b c. s = a @ CHR ''.'' # b @ CHR ''.'' # c \<and> is_numeric_identifier a \<and>
        is_numeric_identifier b \<and> is_numeric_identifier c)"
proof
  assume "is_version_core s"
  then obtain a b c where sp: "split_on CHR ''.'' s = [a, b, c]"
    and n: "is_numeric_identifier a" "is_numeric_identifier b" "is_numeric_identifier c"
    by (auto simp: is_version_core_def split: list.splits)
  from split_on_eq_Cons [OF sp] obtain r where r: "s = a @ CHR ''.'' # r"
      "split_on CHR ''.'' r = [b, c]"
    by auto
  from split_on_eq_Cons [OF r(2)] obtain r' where r': "r = b @ CHR ''.'' # r'"
      "split_on CHR ''.'' r' = [c]"
    by auto
  from split_on_eq_Cons [OF r'(2)] have "r' = c"
    by simp
  with r r' n show "\<exists>a b c. s = a @ CHR ''.'' # b @ CHR ''.'' # c \<and> is_numeric_identifier a \<and>
        is_numeric_identifier b \<and> is_numeric_identifier c"
    by blast
next
  assume "\<exists>a b c. s = a @ CHR ''.'' # b @ CHR ''.'' # c \<and> is_numeric_identifier a \<and>
        is_numeric_identifier b \<and> is_numeric_identifier c"
  then obtain a b c where s: "s = a @ CHR ''.'' # b @ CHR ''.'' # c"
    and n: "is_numeric_identifier a" "is_numeric_identifier b" "is_numeric_identifier c"
    by blast
  from n have "CHR ''.'' \<notin> set a" "CHR ''.'' \<notin> set b" "CHR ''.'' \<notin> set c"
    by (simp_all add: numeric_no_sep)
  then have "split_on CHR ''.'' s = [a, b, c]"
    by (simp add: s split_on_sep split_on_no_sep)
  with n show "is_version_core s"
    by (simp add: is_version_core_def)
qed

lemma version_core_no_sep:
  assumes "is_version_core s"
  shows "CHR ''-'' \<notin> set s \<and> CHR ''+'' \<notin> set s"
proof -
  from assms obtain a b c where "s = a @ CHR ''.'' # b @ CHR ''.'' # c"
      "is_numeric_identifier a" "is_numeric_identifier b" "is_numeric_identifier c"
    unfolding version_core_iff by blast
  then show ?thesis
    using numeric_no_sep [of a] numeric_no_sep [of b] numeric_no_sep [of c] by simp
qed

lemma prereleases_no_plus:
  assumes "list_all is_prerelease_identifier (split_on CHR ''.'' x)"
  shows "CHR ''+'' \<notin> set x"
proof
  assume "CHR ''+'' \<in> set x"
  then have "CHR ''+'' = CHR ''.'' \<or> (\<exists>y \<in> set (split_on CHR ''.'' x). CHR ''+'' \<in> set y)"
    by (rule set_split_on)
  then obtain y where "y \<in> set (split_on CHR ''.'' x)" "CHR ''+'' \<in> set y"
    by auto
  with assms show False
    using prerelease_no_sep [of y] by (simp add: list_all_iff)
qed

lemma cut_at:
  assumes "c \<notin> set u" and "q = [] \<or> hd q = c"
  shows "takeWhile (\<lambda>x. x \<noteq> c) (u @ q) = u \<and> dropWhile (\<lambda>x. x \<noteq> c) (u @ q) = q"
  using assms by (induction u) (cases q; auto)+

lemma lang_SEM_VER_REGEX:
  "w \<in> lang SEM_VER_REGEX \<longleftrightarrow>
     (\<exists>a b c p q. w = a @ CHR ''.'' # b @ CHR ''.'' # c @ p @ q \<and>
        is_numeric_identifier a \<and> is_numeric_identifier b \<and> is_numeric_identifier c \<and>
        p \<in> lang (Opt prerelease) \<and> q \<in> lang (Opt build))"
proof -
  let ?N = numeric_identifier and ?D = "Lit CHR ''.''"
  have R: "SEM_VER_REGEX =
      Cat ?N (Cat ?D (Cat ?N (Cat ?D (Cat ?N (Cat (Opt prerelease) (Opt build))))))"
    by (simp add: SEM_VER_REGEX_def)
  show ?thesis
  proof
    assume "w \<in> lang SEM_VER_REGEX"
    then have "w \<in> lang (Cat ?N (Cat ?D (Cat ?N (Cat ?D (Cat ?N
        (Cat (Opt prerelease) (Opt build)))))))"
      by (simp only: R)
    then obtain a w1 where 1: "w = a @ w1" "a \<in> lang ?N"
        "w1 \<in> lang (Cat ?D (Cat ?N (Cat ?D (Cat ?N (Cat (Opt prerelease) (Opt build))))))"
      by (rule CatE)
    from 1(3) obtain d1 w2 where 2: "w1 = d1 @ w2" "d1 \<in> lang ?D"
        "w2 \<in> lang (Cat ?N (Cat ?D (Cat ?N (Cat (Opt prerelease) (Opt build)))))"
      by (rule CatE)
    from 2(3) obtain b w3 where 3: "w2 = b @ w3" "b \<in> lang ?N"
        "w3 \<in> lang (Cat ?D (Cat ?N (Cat (Opt prerelease) (Opt build))))"
      by (rule CatE)
    from 3(3) obtain d2 w4 where 4: "w3 = d2 @ w4" "d2 \<in> lang ?D"
        "w4 \<in> lang (Cat ?N (Cat (Opt prerelease) (Opt build)))"
      by (rule CatE)
    from 4(3) obtain c w5 where 5: "w4 = c @ w5" "c \<in> lang ?N"
        "w5 \<in> lang (Cat (Opt prerelease) (Opt build))"
      by (rule CatE)
    from 5(3) obtain p q where 6: "w5 = p @ q" "p \<in> lang (Opt prerelease)"
        "q \<in> lang (Opt build)"
      by (rule CatE)
    from 2(2) 4(2) have d: "d1 = [CHR ''.'']" "d2 = [CHR ''.'']"
      by (simp_all add: lang_Lit)
    from 1(2) 3(2) 5(2) have n: "is_numeric_identifier a" "is_numeric_identifier b"
        "is_numeric_identifier c"
      by (simp_all add: lang_numeric_identifier)
    have "w = a @ CHR ''.'' # b @ CHR ''.'' # c @ p @ q"
      by (simp add: 1(1) 2(1) 3(1) 4(1) 5(1) 6(1) d)
    with n 6 show "\<exists>a b c p q. w = a @ CHR ''.'' # b @ CHR ''.'' # c @ p @ q \<and>
        is_numeric_identifier a \<and> is_numeric_identifier b \<and> is_numeric_identifier c \<and>
        p \<in> lang (Opt prerelease) \<and> q \<in> lang (Opt build)"
      by blast
  next
    assume "\<exists>a b c p q. w = a @ CHR ''.'' # b @ CHR ''.'' # c @ p @ q \<and>
        is_numeric_identifier a \<and> is_numeric_identifier b \<and> is_numeric_identifier c \<and>
        p \<in> lang (Opt prerelease) \<and> q \<in> lang (Opt build)"
    then obtain a b c p q where w: "w = a @ CHR ''.'' # b @ CHR ''.'' # c @ p @ q"
      and n: "is_numeric_identifier a" "is_numeric_identifier b" "is_numeric_identifier c"
      and pq: "p \<in> lang (Opt prerelease)" "q \<in> lang (Opt build)"
      by blast
    from n have n': "a \<in> lang ?N" "b \<in> lang ?N" "c \<in> lang ?N"
      by (simp_all add: lang_numeric_identifier)
    have d: "[CHR ''.''] \<in> lang ?D"
      by (simp add: lang_Lit)
    have "a @ [CHR ''.''] @ b @ [CHR ''.''] @ c @ p @ q \<in> lang (Cat ?N (Cat ?D (Cat ?N
        (Cat ?D (Cat ?N (Cat (Opt prerelease) (Opt build)))))))"
      by (intro CatI n' d pq)
    then show "w \<in> lang SEM_VER_REGEX"
      by (simp only: R w append_Cons append_Nil)
  qed
qed

lemma fullmatch_valid_semver: "fullmatch SEM_VER_REGEX w \<longleftrightarrow> valid_semver w"
proof -
  let ?pre = "\<lambda>x. list_all is_prerelease_identifier (split_on CHR ''.'' x)"
  let ?bld = "\<lambda>x. list_all is_build_identifier (split_on CHR ''.'' x)"
  have opt_pre: "p \<in> lang (Opt prerelease) \<longleftrightarrow> p = [] \<or> (\<exists>x. p = CHR ''-'' # x \<and> ?pre x)" for p
    by (auto simp: lang_Opt lang_prerelease)
  have opt_bld: "q \<in> lang (Opt build) \<longleftrightarrow> q = [] \<or> (\<exists>y. q = CHR ''+'' # y \<and> ?bld y)" for q
    by (auto simp: lang_Opt lang_build)
  have "w \<in> lang SEM_VER_REGEX \<longleftrightarrow> valid_semver w"
  proof
    assume "w \<in> lang SEM_VER_REGEX"
    then obtain a b c p q where w: "w = a @ CHR ''.'' # b @ CHR ''.'' # c @ p @ q"
      and n: "is_numeric_identifier a" "is_numeric_identifier b" "is_numeric_identifier c"
      and p: "p \<in> lang (Opt prerelease)" and q: "q \<in> lang (Opt build)"
      unfolding lang_SEM_VER_REGEX by blast
    define core where "core = a @ CHR ''.'' # b @ CHR ''.'' # c"
    have core: "is_version_core core"
      unfolding version_core_iff core_def using n by blast
    then have core_sep: "CHR ''-'' \<notin> set core" "CHR ''+'' \<notin> set core"
      by (simp_all add: version_core_no_sep)
    have w': "w = (core @ p) @ q"
      by (simp add: w core_def)
    from p have p': "p = [] \<or> hd p = CHR ''-''" and pp: "p = [] \<or> ?pre (tl p)"
      and p_plus: "CHR ''+'' \<notin> set p"
      using prereleases_no_plus by (auto simp: opt_pre)
    from q have q': "q = [] \<or> hd q = CHR ''+''" and qq: "q = [] \<or> ?bld (tl q)"
      by (auto simp: opt_bld)
    have "CHR ''+'' \<notin> set (core @ p)"
      using core_sep p_plus by simp
    then have bp: "takeWhile (\<lambda>x. x \<noteq> CHR ''+'') w = core @ p"
        "dropWhile (\<lambda>x. x \<noteq> CHR ''+'') w = q"
      unfolding w' using q' cut_at [of "CHR ''+''" "core @ p" q] by blast+
    have cp: "takeWhile (\<lambda>x. x \<noteq> CHR ''-'') (core @ p) = core"
        "dropWhile (\<lambda>x. x \<noteq> CHR ''-'') (core @ p) = p"
      using core_sep(1) p' cut_at [of "CHR ''-''" core p] by blast+
    show "valid_semver w"
      unfolding valid_semver_def Let_def bp cp using core pp qq by simp
  next
    assume v: "valid_semver w"
    define bp where "bp = takeWhile (\<lambda>x. x \<noteq> CHR ''+'') w"
    define ap where "ap = dropWhile (\<lambda>x. x \<noteq> CHR ''+'') w"
    define core where "core = takeWhile (\<lambda>x. x \<noteq> CHR ''-'') bp"
    define ah where "ah = dropWhile (\<lambda>x. x \<noteq> CHR ''-'') bp"
    from v have core: "is_version_core core" and pp: "ah = [] \<or> ?pre (tl ah)"
      and qq: "ap = [] \<or> ?bld (tl ap)"
      by (simp_all add: valid_semver_def Let_def bp_def ap_def core_def ah_def)
    have "w = bp @ ap" and "bp = core @ ah"
      by (simp_all add: bp_def ap_def core_def ah_def)
    then have w: "w = core @ ah @ ap"
      by simp
    have "ah \<noteq> [] \<Longrightarrow> hd ah = CHR ''-''"
      unfolding ah_def using hd_dropWhile [of "\<lambda>x. x \<noteq> CHR ''-''" bp] by simp
    with pp have "ah = [] \<or> (ah = CHR ''-'' # tl ah \<and> ?pre (tl ah))"
      by (cases ah) auto
    then have p: "ah \<in> lang (Opt prerelease)"
      unfolding opt_pre by blast
    have "ap \<noteq> [] \<Longrightarrow> hd ap = CHR ''+''"
      unfolding ap_def using hd_dropWhile [of "\<lambda>x. x \<noteq> CHR ''+''" w] by simp
    with qq have "ap = [] \<or> (ap = CHR ''+'' # tl ap \<and> ?bld (tl ap))"
      by (cases ap) auto
    then have q: "ap \<in> lang (Opt build)"
      unfolding opt_bld by blast
    from core obtain a b c where abc: "core = a @ CHR ''.'' # b @ CHR ''.'' # c"
        "is_numeric_identifier a" "is_numeric_identifier b" "is_numeric_identifier c"
      unfolding version_core_iff by blast
    have "w = a @ CHR ''.'' # b @ CHR ''.'' # c @ ah @ ap"
      by (simp add: w abc(1))
    with abc p q show "w \<in> lang SEM_VER_REGEX"
      unfolding lang_SEM_VER_REGEX by blast
  qed
  then show ?thesis
    by (simp only: fullmatch_lang)
qed

text \<open>
  What the validator accepts: the versions of the grammar, and those followed by one line
  feed.
\<close>

lemma sem_ver_validator_iff:
  "sem_ver_validator s = Inr () \<longleftrightarrow>
     valid_semver s \<or> (\<exists>t. s = t @ [line_feed] \<and> valid_semver t)"
proof -
  have "(s \<noteq> [] \<and> last s = line_feed \<and> valid_semver (butlast s)) \<longleftrightarrow>
      (\<exists>t. s = t @ [line_feed] \<and> valid_semver t)"
    by (metis append_butlast_last_id butlast_snoc last_snoc snoc_eq_iff_butlast)
  then show ?thesis
    by (simp add: sem_ver_validator_def search_anchored_def fullmatch_valid_semver)
qed

lemma sem_ver_validator_accepts_examples:
  "sem_ver_validator ''1.3.0'' = Inr ()"
  "sem_ver_validator ''0.0.0'' = Inr ()"
  "sem_ver_validator ''1.0.0-alpha.1+build.5'' = Inr ()"
  "valid_semver ''1.3.0''"
  "valid_semver ''0.0.0''"
  "valid_semver ''1.0.0-alpha.1+build.5''"
  by code_simp+

lemma sem_ver_validator_rejects_leading_zero:
  "sem_ver_validator ''1.02.0'' = Inl (ValidationMessage ''Invalid version (semver)'' ''invalid'')"
  "\<not> valid_semver ''1.02.0''"
  by code_simp+

text \<open>
  C8: the validator accepts a text if and only if it satisfies the grammar of Semantic
  Versioning 2.0. The code departs from this at a version followed by a line feed: \<open>$\<close>
  matches before a final line feed, so the validator accepts \<open>1.0.0\<close> with a line feed
  appended, which the grammar does not derive.
\<close>

theorem C8_accepts_trailing_line_feed:
  "sem_ver_validator version_with_line_feed = Inr () \<and> \<not> valid_semver version_with_line_feed"
  by code_simp

section \<open>Disabled wallets\<close>

lemma set_difference: "set (difference q1 q2) = set q1 - set q2"
  by (auto simp: difference_def)

lemma wallet_set_subset: "set (wallet_set wallets c) \<subseteq> set wallets"
  by (auto simp: wallet_set_def)

lemma get_disabled_wallets_example:
  "map key (get_disabled_wallets three_wallets (chain_row 4 100 ''Rinkeby'')) = [''trezor'']"
  "map key (wallet_set three_wallets (chain_row 4 100 ''Rinkeby'')) = [''metamask'', ''ledger'']"
  by code_simp+

text \<open>
  C9: the disabled wallets of a chain and its enabled wallets partition the wallets: their
  union is the set of all wallets and they have no wallet in common.
\<close>

theorem C9_disabled_wallets_partition:
  "set (get_disabled_wallets wallets c) \<union> set (wallet_set wallets c) = set wallets \<and>
   set (get_disabled_wallets wallets c) \<inter> set (wallet_set wallets c) = {}"
  using wallet_set_subset [of wallets c]
  by (auto simp: get_disabled_wallets_def set_difference)

section \<open>The chains list\<close>

lemma length_insert_by: "length (insert_by le x ys) = Suc (length ys)"
  by (induction ys) simp_all

lemma length_order_by: "length (order_by terms rows) = length rows"
  by (induction rows) (simp_all add: order_by_def length_insert_by)

lemma get_limit_le_max: "get_limit req \<le> max_limit"
  by (simp add: get_limit_def max_limit_def default_limit_def split: option.split)

lemma length_ChainsListView:
  "length (ChainsListView req queryset) =
     min (get_limit req) (length queryset - get_offset req)"
  by (simp add: ChainsListView_def paginate_queryset_def length_order_by min.commute)

text \<open>
  C5: with no limit the page size is 10; a limit above 100 is clamped to 100 and the
  request is served, with at most 100 rows.
\<close>

theorem C5_page_size_clamped:
  "(limit req = None \<longrightarrow> get_limit req = 10) \<and>
   (\<forall>n. limit req = Some n \<and> 100 < n \<longrightarrow> get_limit req = 100) \<and>
   length (ChainsListView req queryset) =
     min (get_limit req) (length queryset - get_offset req) \<and>
   length (ChainsListView req queryset) \<le> 100"
proof -
  have "length (ChainsListView req queryset) \<le> get_limit req"
    by (simp add: length_ChainsListView)
  then have "length (ChainsListView req queryset) \<le> 100"
    using get_limit_le_max [of req] by (simp add: max_limit_def)
  then show ?thesis
    by (simp add: get_limit_def default_limit_def max_limit_def length_ChainsListView)
qed

theorem C5_page_size_clamped_witness:
  "limit request_plain = None \<and> get_limit request_plain = 10 \<and>
   limit request_limit_500 = Some 500 \<and> (100 :: nat) < 500 \<and>
   get_limit request_limit_500 = 100 \<and>
   length (ChainsListView request_limit_500 three_chains) \<le> 100"
proof -
  have p: "limit request_plain = None"
    by (simp add: request_plain_def)
  have l: "limit request_limit_500 = Some 500 \<and> (100 :: nat) < 500"
    by (simp add: request_limit_500_def)
  have "get_limit request_plain = 10"
    using C5_page_size_clamped [of request_plain three_chains] p by blast
  moreover have "get_limit request_limit_500 = 100"
    using C5_page_size_clamped [of request_limit_500 three_chains] l by blast
  moreover have "length (ChainsListView request_limit_500 three_chains) \<le> 100"
    using C5_page_size_clamped [of request_limit_500 three_chains] by blast
  ultimately show ?thesis
    using p l by blast
qed

lemma before_eq_default:
  "before_eq ordering_default a b \<longleftrightarrow> relevance_name a \<le> relevance_name b"
  by (auto simp: ordering_default_def term_less_def field_less_def relevance_name_def
      less_eq_prod_def)

lemma insert_by_insort_key:
  assumes "\<And>a b. le a b \<longleftrightarrow> f a \<le> f b"
  shows "insert_by le x ys = insort_key f x ys"
  by (induction ys) (simp_all add: assms)

lemma insert_by_default:
  "insert_by (before_eq ordering_default) x ys = insort_key relevance_name x ys"
  by (rule insert_by_insort_key) (rule before_eq_default)

lemma order_by_default: "order_by ordering_default rows = sort_key relevance_name rows"
  by (induction rows) (simp_all add: order_by_def sort_key_def insert_by_default)

lemma default_order:
  assumes "remove_invalid_fields (ordering_param req) = []"
  shows "ChainsListView req queryset = paginate_queryset req (sort_key relevance_name queryset)"
  using assms by (simp add: ChainsListView_def get_ordering_def order_by_default)

lemma relevance_then_name:
  "sorted_wrt (\<lambda>a b. relevance a < relevance b \<or> (relevance a = relevance b \<and> name a \<le> name b))
     (paginate_queryset req (sort_key relevance_name queryset))"
proof -
  have "sorted (map relevance_name (sort_key relevance_name queryset))"
    by (rule sorted_sort_key)
  then have "sorted_wrt (\<lambda>a b. relevance_name a \<le> relevance_name b)
      (sort_key relevance_name queryset)"
    by (simp add: sorted_map)
  then have "sorted_wrt (\<lambda>a b. relevance_name a \<le> relevance_name b)
      (paginate_queryset req (sort_key relevance_name queryset))"
    unfolding paginate_queryset_def by (intro sorted_wrt_take sorted_wrt_drop)
  then show ?thesis
    by (rule sorted_wrt_mono_rel [rotated]) (auto simp: relevance_name_def less_eq_prod_def)
qed

text \<open>
  C6: a chains-list request with no ordering override returns its page of the chains
  sorted by relevance ascending, with name ascending as tiebreak; on the chains of
  relevance 50, 50, 10 and names B, A, C the order is C, A, B.
\<close>

theorem C6_default_ordering:
  assumes "ordering_param req = []"
  shows "ChainsListView req queryset =
           paginate_queryset req (sort_key relevance_name queryset) \<and>
         sorted_wrt (\<lambda>a b. relevance a < relevance b \<or>
                            (relevance a = relevance b \<and> name a \<le> name b))
           (ChainsListView req queryset)"
proof -
  have "remove_invalid_fields (ordering_param req) = []"
    using assms by (simp add: remove_invalid_fields_def)
  then have "ChainsListView req queryset =
      paginate_queryset req (sort_key relevance_name queryset)"
    by (rule default_order)
  then show ?thesis
    using relevance_then_name [of req queryset] by simp
qed

theorem C6_default_ordering_witness:
  "ordering_param request_plain = [] \<and>
   ChainsListView request_plain three_chains =
     [chain_row 3 10 ''C'', chain_row 2 50 ''A'', chain_row 1 50 ''B''] \<and>
   sorted_wrt (\<lambda>a b. relevance a < relevance b \<or>
                      (relevance a = relevance b \<and> name a \<le> name b))
     [chain_row 3 10 ''C'', chain_row 2 50 ''A'', chain_row 1 50 ''B'']"
proof -
  have h: "ordering_param request_plain = []"
    by (simp add: request_plain_def)
  have r: "ChainsListView request_plain three_chains =
      [chain_row 3 10 ''C'', chain_row 2 50 ''A'', chain_row 1 50 ''B'']"
    by code_simp
  have "sorted_wrt (\<lambda>a b. relevance a < relevance b \<or>
                           (relevance a = relevance b \<and> name a \<le> name b))
      (ChainsListView request_plain three_chains)"
    using C6_default_ordering [OF h, of three_chains] by (rule conjunct2)
  then have "sorted_wrt (\<lambda>a b. relevance a < relevance b \<or>
                           (relevance a = relevance b \<and> name a \<le> name b))
      [chain_row 3 10 ''C'', chain_row 2 50 ''A'', chain_row 1 50 ''B'']"
    unfolding r .
  with h r show ?thesis
    by blast
qed

text \<open>
  C10: when every term of the ordering parameter names a field other than relevance and
  name, the terms are dropped without an error and the page comes in the default order,
  relevance ascending and then name ascending, as if no ordering had been asked for.
\<close>

theorem C10_unknown_ordering_ignored:
  assumes "\<forall>t \<in> set (ordering_param req). field_of t \<notin> {''relevance'', ''name''}"
  shows "ChainsListView req queryset =
           ChainsListView (req\<lparr>ordering_param := []\<rparr>) queryset \<and>
         ChainsListView req queryset =
           paginate_queryset req (sort_key relevance_name queryset) \<and>
         sorted_wrt (\<lambda>a b. relevance a < relevance b \<or>
                            (relevance a = relevance b \<and> name a \<le> name b))
           (ChainsListView req queryset)"
proof -
  have "remove_invalid_fields (ordering_param req) = []"
    using assms
    by (auto simp: remove_invalid_fields_def filter_empty_conv term_valid_def
        ordering_fields_def)
  then have 1: "ChainsListView req queryset =
      paginate_queryset req (sort_key relevance_name queryset)"
    by (rule default_order)
  have "remove_invalid_fields (ordering_param (req\<lparr>ordering_param := []\<rparr>)) = []"
    by (simp add: remove_invalid_fields_def)
  then have "ChainsListView (req\<lparr>ordering_param := []\<rparr>) queryset =
      paginate_queryset (req\<lparr>ordering_param := []\<rparr>) (sort_key relevance_name queryset)"
    by (rule default_order)
  then have 2: "ChainsListView (req\<lparr>ordering_param := []\<rparr>) queryset =
      paginate_queryset req (sort_key relevance_name queryset)"
    by (simp add: paginate_queryset_def get_limit_def get_offset_def)
  show ?thesis
    using 1 2 relevance_then_name [of req queryset] by simp
qed

theorem C10_unknown_ordering_ignored_witness:
  "ordering_param request_unknown_ordering = [''-id'', ''short_name''] \<and>
   field_of ''-id'' = ''id'' \<and> field_of ''short_name'' = ''short_name'' \<and>
   ChainsListView request_unknown_ordering three_chains =
     ChainsListView (request_unknown_ordering\<lparr>ordering_param := []\<rparr>) three_chains \<and>
   ChainsListView request_unknown_ordering three_chains =
     [chain_row 3 10 ''C'', chain_row 2 50 ''A'', chain_row 1 50 ''B'']"
proof -
  have h: "\<forall>t \<in> set (ordering_param request_unknown_ordering).
      field_of t \<notin> {''relevance'', ''name''}"
    by (simp add: request_unknown_ordering_def)
  have r: "ChainsListView request_unknown_ordering three_chains =
      [chain_row 3 10 ''C'', chain_row 2 50 ''A'', chain_row 1 50 ''B'']"
    by code_simp
  have o: "ordering_param request_unknown_ordering = [''-id'', ''short_name''] \<and>
      field_of ''-id'' = ''id'' \<and> field_of ''short_name'' = ''short_name''"
    by (simp add: request_unknown_ordering_def)
  have "ChainsListView request_unknown_ordering three_chains =
      ChainsListView (request_unknown_ordering\<lparr>ordering_param := []\<rparr>) three_chains"
    using C10_unknown_ordering_ignored [OF h, of three_chains] by (rule conjunct1)
  with o r show ?thesis
    by blast
qed

section \<open>The safe-apps list\<close>

lemma isdigit_char_decimal:
  assumes "CHR ''0'' \<le> c \<and> c \<le> CHR ''9''"
  shows "isdigit_char c"
  using assms by (simp add: isdigit_char_def less_eq_char_def)

lemma isdigit_decimal_digits_only:
  assumes "decimal_digits_only s"
  shows "isdigit s"
proof -
  from assms have "s \<noteq> []" and "\<forall>c \<in> set s. CHR ''0'' \<le> c \<and> c \<le> CHR ''9''"
    unfolding decimal_digits_only_def list_all_iff by blast+
  then have "s \<noteq> [] \<and> (\<forall>c \<in> set s. isdigit_char c)"
    using isdigit_char_decimal by blast
  then show ?thesis
    unfolding isdigit_def list_all_iff .
qed

lemma get_queryset_no_parameter:
  assumes "query_get params ''chainId'' = None"
  shows "get_queryset table params = filter visible table"
  by (simp only: get_queryset_def Let_def assms option.case)

lemma get_queryset_decimal:
  assumes "query_get params ''chainId'' = Some n" and "decimal_digits_only n"
  shows "get_queryset table params =
           filter (\<lambda>a. visible a \<and> n \<in> set (map decimal (chain_ids a))) table"
proof -
  have "isdigit n"
    using assms(2) by (rule isdigit_decimal_digits_only)
  then have "get_queryset table params =
      filter (\<lambda>a. chain_ids_contains (chain_ids a) [n]) (filter visible table)"
    by (simp only: get_queryset_def Let_def assms(1) option.case if_True)
  also have "\<dots> = filter (\<lambda>a. visible a \<and> chain_ids_contains (chain_ids a) [n]) table"
    by (simp only: filter_filter)
  also have "\<dots> = filter (\<lambda>a. visible a \<and> n \<in> set (map decimal (chain_ids a))) table"
    by (simp add: chain_ids_contains_def list_all_iff del: decimal.simps)
  finally show ?thesis .
qed

lemma get_queryset_not_isdigit:
  assumes "query_get params ''chainId'' = Some n" and "\<not> isdigit n"
  shows "get_queryset table params = filter visible table"
  by (simp only: get_queryset_def Let_def assms option.case if_False)

lemma get_queryset_examples:
  "get_queryset safe_apps query_chain_4 = [app_1_4, app_4]"
  "get_queryset safe_apps [(''chainId'', ''abc'')] = [app_1_4, app_4, app_10]"
  "get_queryset safe_apps [(''chainId'', '''')] = [app_1_4, app_4, app_10]"
  "get_queryset safe_apps [] = [app_1_4, app_4, app_10]"
  by code_simp+

text \<open>
  C4: the list is the visible apps, restricted by chain id when \<open>chainId\<close> consists solely
  of decimal digits, and all visible apps when \<open>chainId\<close> is anything else. The code departs
  from this at a \<open>chainId\<close> that is the superscript two: it is no decimal digit, \<open>isdigit\<close>
  holds of it all the same, so the filter is applied with it and no app is returned,
  where all three visible apps should be.
\<close>

theorem C4_superscript_two_filters:
  "\<not> decimal_digits_only superscript_two \<and> isdigit superscript_two \<and>
   get_queryset safe_apps [(''chainId'', superscript_two)] = [] \<and>
   filter visible safe_apps = [app_1_4, app_4, app_10]"
  by code_simp

section \<open>The response cache of the safe-apps list\<close>

lemma get_miss:
  assumes "\<not> live c params now"
  shows "get now table c params =
           (get_queryset table params,
            c(params \<mapsto> \<lparr>payload = get_queryset table params, expires = now + cache_timeout\<rparr>))"
  using assms by (simp add: get_def Let_def)

lemma get_hit:
  assumes "c params = Some e" and "now < expires e"
  shows "get now table c params = (payload e, c)"
  using assms by (simp add: get_def live_def)

lemma get_other_parameters:
  assumes "params' \<noteq> params"
  shows "snd (get now table c params') params = c params"
  using assms by (simp add: get_def Let_def)

lemma serve_keeps_entry:
  assumes "c params = Some e"
    and "\<forall>(now, table, params') \<in> set requests. params' = params \<longrightarrow> now < expires e"
  shows "snd (serve c requests) params = Some e"
  using assms
proof (induction requests arbitrary: c)
  case Nil
  then show ?case by simp
next
  case (Cons r requests)
  obtain now table params' where r: "r = (now, table, params')"
    by (cases r) auto
  have "snd (get now table c params') params = Some e"
  proof (cases "params' = params")
    case True
    with Cons.prems r have "now < expires e" by auto
    with Cons.prems(1) True show ?thesis by (simp add: get_hit)
  next
    case False
    with Cons.prems(1) show ?thesis by (simp add: get_other_parameters)
  qed
  moreover have "\<forall>(now, table, params') \<in> set requests. params' = params \<longrightarrow> now < expires e"
    using Cons.prems(2) by auto
  ultimately have "snd (serve (snd (get now table c params')) requests) params = Some e"
    by (rule Cons.IH)
  then show ?case
    by (simp add: r case_prod_beta Let_def)
qed

text \<open>
  C7, as stated: any two requests with the same query parameters made within 10 minutes
  of each other get the same payload. An entry lives for 10 minutes from the request that
  stored it, so two such requests can fall on either side of its expiry: the entry is
  stored at second 0, the table changes, the request at second 599 is answered from the
  entry and the request at second 601, two seconds later, from the table.
\<close>

theorem C7_counterexample:
  "fst (serve Map.empty
     [(0, safe_apps, query_chain_4), (599, [app_10], query_chain_4),
      (601, [app_10], query_chain_4)]) =
   [[app_1_4, app_4], [app_1_4, app_4], []] \<and>
   [app_1_4, app_4] \<noteq> ([] :: SafeApp list) \<and> (601 :: nat) - 599 < cache_timeout"
proof -
  have 1: "get_queryset safe_apps query_chain_4 = [app_1_4, app_4]"
    by code_simp
  have 2: "get_queryset [app_10] query_chain_4 = []"
    by code_simp
  show ?thesis
    by (simp add: get_def live_def cache_timeout_def Let_def 1 2)
qed

lemma get_entry:
  "\<exists>e. snd (get now table c params) params = Some e \<and>
       payload e = fst (get now table c params) \<and> now < expires e"
  by (auto simp: get_def live_def Let_def cache_timeout_def split: option.splits)

text \<open>
  C7, amended: each response is held in the safe-apps cache region under the query
  parameters of the request, in an entry that expires 10 minutes after the request that
  computed it, which is a request that found no live entry for its parameters. A later
  request with the same query parameters made before the entry expires returns the
  identical payload, whatever has become of the table and whichever requests were served
  in between; so the payloads of two requests with the same parameters are identical
  when the second is made before the expiry of the entry that answered the first, and in
  particular when it is made less than 10 minutes after a first request that found no
  live entry. A request with other query parameters, such as another \<open>chainId\<close>, leaves
  the entry alone.
\<close>

theorem C7_cached_until_expiry:
  assumes "snd (get t table c params) params = Some e"
    and "\<forall>(now, table, params') \<in> set between. params' = params \<longrightarrow> now < expires e"
    and "t2 < expires e"
  shows "fst (get t2 table2 (snd (serve (snd (get t table c params)) between)) params) =
           fst (get t table c params) \<and>
         (\<not> live c params t \<longrightarrow>
            expires e = t + cache_timeout \<and>
            fst (get t table c params) = get_queryset table params) \<and>
         (\<forall>params'. params' \<noteq> params \<longrightarrow>
            snd (get t2 table2 (snd (get t table c params)) params') params = Some e)"
proof -
  let ?c1 = "snd (get t table c params)"
  let ?c2 = "snd (serve ?c1 between)"
  have p: "payload e = fst (get t table c params)"
    using get_entry [of t table c params] assms(1) by auto
  have "?c2 params = Some e"
    using assms(1, 2) by (rule serve_keeps_entry)
  then have "get t2 table2 ?c2 params = (payload e, ?c2)"
    using assms(3) by (rule get_hit)
  then have 1: "fst (get t2 table2 ?c2 params) = fst (get t table c params)"
    by (simp add: p)
  have 2: "expires e = t + cache_timeout \<and> fst (get t table c params) = get_queryset table params"
    if "\<not> live c params t"
    using get_miss [OF that, of table] assms(1) by auto
  have 3: "snd (get t2 table2 ?c1 params') params = Some e" if "params' \<noteq> params" for params'
    using that assms(1) by (simp add: get_other_parameters)
  from 1 2 3 show ?thesis
    by blast
qed

theorem C7_cached_until_expiry_witness:
  "snd (get 0 safe_apps Map.empty query_chain_4) query_chain_4 =
     Some \<lparr>payload = [app_1_4, app_4], expires = 600\<rparr> \<and>
   query_chain_10 \<noteq> query_chain_4 \<and>
   (599 :: nat) < expires \<lparr>payload = [app_1_4, app_4], expires = 600\<rparr> \<and>
   fst (get 0 safe_apps Map.empty query_chain_4) = [app_1_4, app_4] \<and>
   fst (get 599 [app_10]
          (snd (serve (snd (get 0 safe_apps Map.empty query_chain_4))
                  [(120, [app_10], query_chain_10)])) query_chain_4) =
     [app_1_4, app_4]"
proof -
  let ?e = "\<lparr>payload = [app_1_4, app_4], expires = 600\<rparr>"
  have r: "get_queryset safe_apps query_chain_4 = [app_1_4, app_4]"
    by code_simp
  have g: "get 0 safe_apps Map.empty query_chain_4 =
      ([app_1_4, app_4], [query_chain_4 \<mapsto> ?e])"
    by (simp add: get_def live_def Let_def cache_timeout_def r)
  have a: "snd (get 0 safe_apps Map.empty query_chain_4) query_chain_4 = Some ?e"
    by (simp add: g)
  have n: "query_chain_10 \<noteq> query_chain_4"
    by (simp add: query_chain_10_def query_chain_4_def)
  have b: "\<forall>(now, table, params') \<in> set [(120 :: nat, [app_10], query_chain_10)].
      params' = query_chain_4 \<longrightarrow> now < expires ?e"
    by simp
  have d: "(599 :: nat) < expires ?e"
    by simp
  have "fst (get 599 [app_10]
             (snd (serve (snd (get 0 safe_apps Map.empty query_chain_4))
                     [(120, [app_10], query_chain_10)])) query_chain_4) =
        fst (get 0 safe_apps Map.empty query_chain_4)"
    using C7_cached_until_expiry [OF a b d, of "[app_10]"] by (rule conjunct1)
  moreover have "fst (get 0 safe_apps Map.empty query_chain_4) = [app_1_4, app_4]"
    by (simp add: g)
  ultimately show ?thesis
    using a n d by simp
qed

end
